theory Spec2Isabelle
  imports Main "HOL-Library.Word" "HOL-Library.Signed_Division" "HOL-Library.Sublist"
begin

section \<open>The sleepy character device: data model\<close>

text \<open>
  The driver keeps one \<open>struct sleepy_dev\<close> per minor number in the array
  \<open>sleepy_devices\<close>. The header that declares the structure is not among the sources;
  the fields used by \<open>sleepy.c\<close> are \<open>data\<close> (a buffer pointer that is only ever
  \<open>NULL\<close>), \<open>flag\<close>, \<open>sleepy_mutex\<close>, \<open>wq\<close> and \<open>cdev\<close>. The integer type of
  \<open>flag\<close> is therefore a parameter: the field has type \<open>'w word\<close> for an arbitrary
  width \<open>'w\<close>, and \<open>dev->flag++\<close> wraps at that width.

  The mutex and the wait queue hold no data of their own in this model. What they do is
  visible through the environment of each call: whether \<open>mutex_lock_killable\<close> was
  interrupted, which calls of other threads completed between two looks at the flag, and
  how long \<open>schedule_timeout\<close> slept.
\<close>

record 'c sleepy_dev =
  data :: "nat option"
  flag :: "'c"

text \<open>
  \<open>struct file\<close>: \<open>sleepy_open\<close> stores \<open>&sleepy_devices[mn]\<close> in \<open>private_data\<close>;
  the model stores the index \<open>mn\<close>.
\<close>

record struct_file =
  private_data :: nat

record struct_inode =
  imajor :: nat
  iminor :: nat
  i_cdev :: nat

definition EINTR :: int where "EINTR = 4"
definition ENOMEM :: int where "ENOMEM = 12"
definition ENODEV :: int where "ENODEV = 19"
definition EINVAL :: int where "EINVAL = 22"
definition ERESTARTSYS :: int where "ERESTARTSYS = 512"

section \<open>Open and read\<close>

text \<open>
  \<open>sleepy_open\<close> accepts an inode only when its major number is the driver's and its
  minor number indexes \<open>sleepy_devices\<close>. The cdev of device \<open>mn\<close> is identified with
  \<open>mn\<close>, so the internal-error test compares \<open>i_cdev\<close> with \<open>mn\<close>. As in the source,
  \<open>private_data\<close> is already written when that test fails. The comparison of the
  \<open>unsigned int mn\<close> with the \<open>int sleepy_ndevices\<close> is made at \<open>unsigned int\<close>.
\<close>

definition sleepy_open ::
  "nat \<Rightarrow> int \<Rightarrow> struct_inode \<Rightarrow> struct_file \<Rightarrow> int \<times> struct_file" where
  "sleepy_open sleepy_major sleepy_ndevices inode filp =
     (let mj = imajor inode; mn = iminor inode in
      if mj \<noteq> sleepy_major \<or> int mn \<ge> sleepy_ndevices mod 2 ^ 32 then (- ENODEV, filp)
      else
        let filp' = filp\<lparr>private_data := mn\<rparr> in
        if i_cdev inode \<noteq> mn then (- ENODEV, filp') else (0, filp'))"

text \<open>
  \<open>sleepy_read\<close>. The argument \<open>killed\<close> is the outcome of
  \<open>mutex_lock_killable\<close>: true when the call was interrupted by a fatal signal and
  returned non-zero. The result is the return value and the device array after the call.
\<close>

definition sleepy_read ::
  "('w::len) word sleepy_dev list \<Rightarrow> struct_file \<Rightarrow> bool
     \<Rightarrow> int \<times> 'w word sleepy_dev list" where
  "sleepy_read sleepy_devices filp killed =
     (let dev = private_data filp; retval = 0 in
      if killed then (- EINTR, sleepy_devices)
      else
        (retval,
         sleepy_devices[dev := (sleepy_devices ! dev)\<lparr>flag := flag (sleepy_devices ! dev) + 1\<rparr>]))"

text \<open>
  A sequence of \<open>sleepy_read\<close> calls on one open file, one lock outcome per call.
\<close>

fun read_calls ::
  "('w::len) word sleepy_dev list \<Rightarrow> struct_file \<Rightarrow> bool list \<Rightarrow> 'w word sleepy_dev list" where
  "read_calls devs filp [] = devs"
| "read_calls devs filp (k # ks) = read_calls (snd (sleepy_read devs filp k)) filp ks"

section \<open>Waiting for a change of the flag\<close>

text \<open>
  \<open>sleepy_write\<close> sleeps in the kernel macro \<open>wait_event_interruptible_timeout\<close>
  (\<open>linux/wait.h\<close>), which is modelled here after the kernel's text:
  \<^verbatim>\<open>
  #define ___wait_cond_timeout(condition)
  ({ bool __cond = (condition);
     if (__cond && !__ret) __ret = 1;
     __cond || !__ret; })

  #define wait_event_interruptible_timeout(wq, condition, timeout)
  ({ long __ret = timeout;
     if (!___wait_cond_timeout(condition))
       __ret = __wait_event_interruptible_timeout(wq, condition, timeout);
     __ret; })
  \<close>
  and \<open>__wait_event_interruptible_timeout\<close> is the loop
  \<^verbatim>\<open>
  for (;;) {
    long __int = prepare_to_wait_event(&wq, &__wait, TASK_INTERRUPTIBLE);
    if (___wait_cond_timeout(condition)) break;
    if (__int) { __ret = __int; break; }
    __ret = schedule_timeout(__ret);
  }
  \<close>
  The thread that waits shares the device with the threads that call \<open>sleepy_read\<close>.
  Each round of the loop is described by a \<open>tick\<close> of the environment: the
  \<open>sleepy_read\<close> calls of other threads (given by the index of their device) that
  completed since the last look at the flag, whether a signal is pending for the waiting
  thread when \<open>prepare_to_wait_event\<close> asks, and the number of jiffies that pass in
  \<open>schedule_timeout\<close> if the round gets that far. The list of ticks is the fuel of
  the loop: a wait that uses up all ticks without leaving the loop has no result.
  Values of type \<open>long\<close> are integers here; they stay between \<open>- 2 ^ 31\<close> and
  \<open>2 ^ 31\<close>, since the timeout starts as a sign-extended \<open>int\<close> and only decreases.
\<close>

record tick =
  arrivals :: "nat list"
  signal_pending :: bool
  elapsed :: nat

fun completed_reads ::
  "('w::len) word sleepy_dev list \<Rightarrow> nat list \<Rightarrow> 'w word sleepy_dev list" where
  "completed_reads devs [] = devs"
| "completed_reads devs (m # ms) =
     completed_reads (snd (sleepy_read devs \<lparr>private_data = m\<rparr> False)) ms"

definition wait_cond_timeout :: "bool \<Rightarrow> int \<Rightarrow> bool \<times> int" where
  "wait_cond_timeout cond ret =
     (let ret' = (if cond \<and> ret = 0 then 1 else ret) in (cond \<or> ret' = 0, ret'))"

definition prepare_to_wait_event :: "bool \<Rightarrow> int" where
  "prepare_to_wait_event pending = (if pending then - ERESTARTSYS else 0)"

definition MAX_SCHEDULE_TIMEOUT :: int where
  "MAX_SCHEDULE_TIMEOUT = 2 ^ 63 - 1"

text \<open>
  \<open>schedule_timeout\<close> (\<open>kernel/timer.c\<close>): with \<open>MAX_SCHEDULE_TIMEOUT\<close> it sleeps
  without a timer and returns its argument; a negative timeout is refused (the kernel
  logs it and returns 0 without sleeping); otherwise it sleeps and returns the jiffies
  that are left, at least 0. The second component tells whether the thread was put to
  sleep.
\<close>

definition schedule_timeout :: "int \<Rightarrow> nat \<Rightarrow> int \<times> bool" where
  "schedule_timeout timeout slept =
     (if timeout = MAX_SCHEDULE_TIMEOUT then (timeout, True)
      else if timeout < 0 then (0, False)
      else
        let left = timeout - int slept in
        (if left < 0 then 0 else left, True))"

text \<open>
  The loop. Its arguments are the device array, the index of the device, the value of
  the flag that \<open>sleepy_write\<close> stored, the current \<open>__ret\<close>, the number of times the
  thread has been put to sleep so far, and the ticks. The result is the final
  \<open>__ret\<close>, the number of sleeps, and the device array as the other threads left it.
\<close>

fun wait_loop ::
  "('w::len) word sleepy_dev list \<Rightarrow> nat \<Rightarrow> 'w word \<Rightarrow> int \<Rightarrow> nat \<Rightarrow> tick list
     \<Rightarrow> (int \<times> nat \<times> 'w word sleepy_dev list) option" where
  "wait_loop devs dev flag0 ret blocked [] = None"
| "wait_loop devs dev flag0 ret blocked (t # ts) =
     (let devs' = completed_reads devs (arrivals t);
          int' = prepare_to_wait_event (signal_pending t);
          (brk, ret') = wait_cond_timeout (flag0 \<noteq> flag (devs' ! dev)) ret
      in if brk then Some (ret', blocked, devs')
         else if int' \<noteq> 0 then Some (int', blocked, devs')
         else
           let (ret'', slept) = schedule_timeout ret' (elapsed t)
           in wait_loop devs' dev flag0 ret'' (if slept then Suc blocked else blocked) ts)"

definition wait_event_interruptible_timeout ::
  "('w::len) word sleepy_dev list \<Rightarrow> nat \<Rightarrow> 'w word \<Rightarrow> int \<Rightarrow> nat list \<Rightarrow> tick list
     \<Rightarrow> (int \<times> nat \<times> 'w word sleepy_dev list) option" where
  "wait_event_interruptible_timeout devs dev flag0 timeout raced ticks =
     (let devs' = completed_reads devs raced;
          (brk, ret) = wait_cond_timeout (flag0 \<noteq> flag (devs' ! dev)) timeout
      in if \<not> brk then wait_loop devs' dev flag0 timeout 0 ticks
         else Some (ret, 0, devs'))"

section \<open>Write\<close>

text \<open>
  The environment of one \<open>sleepy_write\<close> call: whether \<open>mutex_lock_killable\<close> was
  interrupted, the \<open>sleepy_read\<close> calls of other threads that completed between
  \<open>mutex_unlock\<close> and the first test of the condition, and the ticks of the wait loop.
\<close>

record write_env =
  lock_killed :: bool
  raced :: "nat list"
  wakeups :: "tick list"

text \<open>
  Two readings of the environment, used to say when and where a wait ended. The waiter
  tests the condition first in the macro itself (test 0) and then once in each round of
  the loop (round \<open>i\<close> is test \<open>i + 1\<close>). \<open>seen devs env i\<close> is the device array at
  test \<open>i\<close>: the array at the snapshot with the \<open>sleepy_read\<close> calls of other threads
  delivered up to that test. \<open>slept_jiffies env n\<close> is the time that passes in the first
  \<open>n\<close> sleeps.
\<close>

definition seen ::
  "('w::len) word sleepy_dev list \<Rightarrow> write_env \<Rightarrow> nat \<Rightarrow> 'w word sleepy_dev list" where
  "seen devs env i =
     completed_reads devs (raced env @ concat (map arrivals (take i (wakeups env))))"

definition slept_jiffies :: "write_env \<Rightarrow> nat \<Rightarrow> int" where
  "slept_jiffies env n = int (sum_list (map elapsed (take n (wakeups env))))"

text \<open>
  \<open>sleepy_write\<close>. \<open>HZ\<close> is the kernel's configuration constant, a parameter here.
  The user buffer is what \<open>copy_from_user\<close> makes of it for a count of 4: \<open>None\<close>
  when bytes could not be copied, otherwise the \<open>int\<close> that was read. The product
  \<open>sleep_seconds * HZ\<close> is computed at \<open>int\<close> and wraps at 32 bits (the kernel is
  compiled with wrapping signed arithmetic); it is sign-extended to the
  \<open>unsigned long sleep_jiffies\<close> of 64 bits, which the macro reads back as a \<open>long\<close>.
  The division \<open>retval/HZ\<close> truncates towards zero. The result is the return value,
  the number of times the thread was put to sleep by the wait, and the device array
  after the call; there is no result when the wait uses up its ticks.

  The local \<open>unsigned long flag\<close> holds the converted \<open>dev->flag\<close> and is compared
  with the converted \<open>dev->flag\<close> again; the conversion of an integer type of at most 64
  bits to \<open>unsigned long\<close> is injective, so the model compares at the type of the field.
\<close>

definition sleepy_write ::
  "int \<Rightarrow> ('w::len) word sleepy_dev list \<Rightarrow> struct_file \<Rightarrow> nat \<Rightarrow> 32 word option
     \<Rightarrow> write_env \<Rightarrow> (int \<times> nat \<times> 'w word sleepy_dev list) option" where
  "sleepy_write HZ sleepy_devices filp count buf env =
     (let dev = private_data filp in
      if count \<noteq> 4 then Some (- EINVAL, 0, sleepy_devices)
      else
        case buf of
          None \<Rightarrow> Some (- EINVAL, 0, sleepy_devices)
        | Some sleep_seconds \<Rightarrow>
            let sleep_jiffies = (scast (sleep_seconds * word_of_int HZ) :: 64 word) in
            if lock_killed env then Some (- EINTR, 0, sleepy_devices)
            else
              let flag0 = flag (sleepy_devices ! dev) in
              (case wait_event_interruptible_timeout sleepy_devices dev flag0
                      (sint sleep_jiffies) (raced env) (wakeups env) of
                 None \<Rightarrow> None
               | Some (retval, blocked, devs') \<Rightarrow>
                   Some (if retval \<noteq> 0 then retval sdiv HZ else retval, blocked, devs')))"

section \<open>Module initialisation and cleanup\<close>

text \<open>
  The module's globals (\<open>sleepy_major\<close>, \<open>sleepy_devices\<close>, \<open>sleepy_class\<close>) together
  with the kernel resources the module holds: the region of device numbers, the device
  class, the memory of the array, the character devices added with \<open>cdev_add\<close> and the
  device nodes made with \<open>device_create\<close>, both as sets of minor numbers. \<open>destroyed\<close>
  lists the minor numbers given to \<open>sleepy_destroy_device\<close>, in order.

  A pointer returned by the kernel is the integer it is as a \<open>long\<close>: 0 is \<open>NULL\<close>, and the
  values from \<open>- 4095\<close> to \<open>- 1\<close> are the error pointers. \<open>kfree\<close> leaves the global
  \<open>sleepy_devices\<close> as it is, so the model keeps the pointer and clears \<open>live_array\<close>.
\<close>

record 'c module_state =
  sleepy_major :: nat
  sleepy_devices :: "'c sleepy_dev list option"
  sleepy_class :: int
  chrdev_region :: bool
  live_class :: bool
  live_array :: bool
  live_cdevs :: "nat set"
  live_nodes :: "nat set"
  destroyed :: "nat list"

text \<open>The state of a module that is not loaded, with the globals' static initialisers.\<close>

definition unloaded :: "('w::len) word module_state" where
  "unloaded =
     \<lparr>sleepy_major = 0, sleepy_devices = None, sleepy_class = 0, chrdev_region = False,
      live_class = False, live_array = False, live_cdevs = {}, live_nodes = {},
      destroyed = []\<rparr>"

text \<open>
  What the kernel answers during initialisation: the result of \<open>alloc_chrdev_region\<close>
  and the major number it chose, the pointer from \<open>class_create\<close>, whether \<open>kzalloc\<close>
  found memory, and for each minor number the result of \<open>cdev_add\<close> and the pointer from
  \<open>device_create\<close>.
\<close>

record init_env =
  alloc_chrdev_region_res :: int
  alloc_major :: nat
  class_create_res :: int
  kzalloc_ok :: bool
  cdev_add_res :: "nat \<Rightarrow> int"
  device_create_res :: "nat \<Rightarrow> int"

definition MAX_ERRNO :: int where "MAX_ERRNO = 4095"

definition IS_ERR :: "int \<Rightarrow> bool" where
  "IS_ERR ptr = (- MAX_ERRNO \<le> ptr \<and> ptr < 0)"

definition PTR_ERR :: "int \<Rightarrow> int" where
  "PTR_ERR ptr = ptr"

text \<open>
  \<open>sleepy_construct_device\<close>. The caller passes \<open>&sleepy_devices[minor]\<close> and
  \<open>sleepy_class\<close>; the model reads both from the state. \<open>BUG_ON\<close> stops the kernel
  thread: the model has no result (\<open>None\<close>) there.
\<close>

definition sleepy_construct_device ::
  "init_env \<Rightarrow> ('w::len) word module_state \<Rightarrow> nat \<Rightarrow> (int \<times> 'w word module_state) option" where
  "sleepy_construct_device env st minor =
     (case sleepy_devices st of
        None \<Rightarrow> None
      | Some devs \<Rightarrow>
          if sleepy_class st = 0 then None
          else
            let st1 = st\<lparr>sleepy_devices := Some (devs[minor := (devs ! minor)\<lparr>data := None, flag := 0\<rparr>])\<rparr>;
                err = cdev_add_res env minor
            in if err \<noteq> 0 then Some (err, st1)
               else
                 let st2 = st1\<lparr>live_cdevs := insert minor (live_cdevs st1)\<rparr>;
                     device = device_create_res env minor
                 in if IS_ERR device
                    then Some (PTR_ERR device, st2\<lparr>live_cdevs := live_cdevs st2 - {minor}\<rparr>)
                    else Some (0, st2\<lparr>live_nodes := insert minor (live_nodes st2)\<rparr>))"

text \<open>
  \<open>sleepy_destroy_device\<close>: \<open>device_destroy\<close>, \<open>cdev_del\<close>, and \<open>kfree(dev->data)\<close>,
  which frees nothing since \<open>data\<close> is \<open>NULL\<close>.
\<close>

definition sleepy_destroy_device ::
  "('w::len) word module_state \<Rightarrow> nat \<Rightarrow> 'w word module_state option" where
  "sleepy_destroy_device st minor =
     (if sleepy_devices st = None \<or> sleepy_class st = 0 then None
      else Some (st\<lparr>live_nodes := live_nodes st - {minor},
                    live_cdevs := live_cdevs st - {minor},
                    destroyed := destroyed st @ [minor]\<rparr>))"

function destroy_loop ::
  "('w::len) word module_state \<Rightarrow> nat \<Rightarrow> nat \<Rightarrow> 'w word module_state option" where
  "destroy_loop st i devices_to_destroy =
     (if i < devices_to_destroy then
        (case sleepy_destroy_device st i of
           None \<Rightarrow> None
         | Some st' \<Rightarrow> destroy_loop st' (Suc i) devices_to_destroy)
      else Some st)"
  by pat_completeness auto
termination
  by (relation "measure (\<lambda>(st, i, n). n - i)") auto

definition class_destroy :: "('w::len) word module_state \<Rightarrow> 'w word module_state" where
  "class_destroy st =
     (if sleepy_class st = 0 \<or> IS_ERR (sleepy_class st) then st else st\<lparr>live_class := False\<rparr>)"

definition sleepy_cleanup_module ::
  "('w::len) word module_state \<Rightarrow> nat \<Rightarrow> 'w word module_state option" where
  "sleepy_cleanup_module st devices_to_destroy =
     (case (if sleepy_devices st \<noteq> None
            then map_option (\<lambda>s. s\<lparr>live_array := False\<rparr>) (destroy_loop st 0 devices_to_destroy)
            else Some st) of
        None \<Rightarrow> None
      | Some st1 \<Rightarrow>
          let st2 = (if sleepy_class st1 \<noteq> 0 then class_destroy st1 else st1)
          in Some (st2\<lparr>chrdev_region := False\<rparr>))"

text \<open>
  The loop of \<open>sleepy_init_module\<close> that constructs the devices. Its result is \<open>err\<close>,
  \<open>devices_to_destroy\<close> and the state when the loop is left.
\<close>

function construct_loop ::
  "init_env \<Rightarrow> ('w::len) word module_state \<Rightarrow> nat \<Rightarrow> nat
     \<Rightarrow> (int \<times> nat \<times> 'w word module_state) option" where
  "construct_loop env st i ndevices =
     (if i < ndevices then
        (case sleepy_construct_device env st i of
           None \<Rightarrow> None
         | Some (err, st') \<Rightarrow>
             if err \<noteq> 0 then Some (err, i, st')
             else construct_loop env st' (Suc i) ndevices)
      else Some (0, 0, st))"
  by pat_completeness auto
termination
  by (relation "measure (\<lambda>(env, st, i, n). n - i)") auto

definition fail :: "int \<Rightarrow> ('w::len) word module_state \<Rightarrow> nat \<Rightarrow> (int \<times> 'w word module_state) option" where
  "fail err st devices_to_destroy =
     map_option (\<lambda>s. (err, s)) (sleepy_cleanup_module st devices_to_destroy)"

definition sleepy_init_module ::
  "int \<Rightarrow> init_env \<Rightarrow> ('w::len) word module_state \<Rightarrow> (int \<times> 'w word module_state) option" where
  "sleepy_init_module sleepy_ndevices env st =
     (if sleepy_ndevices \<le> 0 then Some (- EINVAL, st)
      else
        let err = alloc_chrdev_region_res env in
        if err < 0 then Some (err, st)
        else
          let st1 = st\<lparr>sleepy_major := alloc_major env, chrdev_region := True\<rparr>;
              cls = class_create_res env;
              st2 = st1\<lparr>sleepy_class := cls, live_class := (cls \<noteq> 0 \<and> \<not> IS_ERR cls)\<rparr>
          in if IS_ERR (sleepy_class st2) then fail (PTR_ERR (sleepy_class st2)) st2 0
             else if \<not> kzalloc_ok env then fail (- ENOMEM) (st2\<lparr>sleepy_devices := None\<rparr>) 0
             else
               let st3 = st2\<lparr>sleepy_devices :=
                               Some (replicate (nat sleepy_ndevices) \<lparr>data = None, flag = 0\<rparr>),
                             live_array := True\<rparr>
               in (case construct_loop env st3 0 (nat sleepy_ndevices) of
                     None \<Rightarrow> None
                   | Some (err', devices_to_destroy, st4) \<Rightarrow>
                       if err' \<noteq> 0 then fail err' st4 devices_to_destroy else Some (0, st4)))"

definition sleepy_exit_module ::
  "int \<Rightarrow> ('w::len) word module_state \<Rightarrow> 'w word module_state option" where
  "sleepy_exit_module sleepy_ndevices st = sleepy_cleanup_module st (nat sleepy_ndevices)"

section \<open>Example states and environments\<close>

definition three_devs :: "32 word sleepy_dev list" where
  "three_devs = [\<lparr>data = None, flag = 4\<rparr>, \<lparr>data = None, flag = 5\<rparr>, \<lparr>data = None, flag = 6\<rparr>]"

definition one_dev :: "32 word sleepy_dev list" where
  "one_dev = [\<lparr>data = None, flag = 0\<rparr>]"

definition filp0 :: struct_file where
  "filp0 = \<lparr>private_data = 0\<rparr>"

definition filp1 :: struct_file where
  "filp1 = \<lparr>private_data = 1\<rparr>"

text \<open>
  A waiter that sleeps 2400 jiffies and then sees a \<open>sleepy_read\<close> on its device; a
  waiter that sleeps 2500 jiffies and sees none; a waiter with two quiet rounds; a
  waiter that finds a \<open>sleepy_read\<close> completed before its first test of the condition.
\<close>

definition env_woken_late :: write_env where
  "env_woken_late =
     \<lparr>lock_killed = False, raced = [],
      wakeups = [\<lparr>arrivals = [], signal_pending = False, elapsed = 2400\<rparr>,
                 \<lparr>arrivals = [0], signal_pending = False, elapsed = 100\<rparr>,
                 \<lparr>arrivals = [], signal_pending = False, elapsed = 0\<rparr>]\<rparr>"

definition env_timed_out :: write_env where
  "env_timed_out =
     \<lparr>lock_killed = False, raced = [],
      wakeups = [\<lparr>arrivals = [], signal_pending = False, elapsed = 2500\<rparr>,
                 \<lparr>arrivals = [], signal_pending = False, elapsed = 0\<rparr>]\<rparr>"


definition env_raced :: write_env where
  "env_raced = \<lparr>lock_killed = False, raced = [0], wakeups = []\<rparr>"

text \<open>
  An initialisation of three devices in which \<open>device_create\<close> fails for minor
  number 2 with \<open>-ENOMEM\<close>.
\<close>

definition env_fail2 :: init_env where
  "env_fail2 =
     \<lparr>alloc_chrdev_region_res = 0, alloc_major = 250, class_create_res = 4096,
      kzalloc_ok = True, cdev_add_res = (\<lambda>i. 0),
      device_create_res = (\<lambda>i. if i = 2 then - 12 else 8192 + int i)\<rparr>"

section \<open>Properties of read\<close>

text \<open>
  A file that \<open>sleepy_open\<close> has accepted points into the device array: this is the
  condition \<open>private_data filp < length devs\<close> of the statements below.
\<close>

lemma sleepy_open_valid:
  assumes "sleepy_open mj ndevices inode filp = (0, filp')" "0 < ndevices" "ndevices < 2 ^ 31"
  shows "private_data filp' < nat ndevices"
proof -
  have "ndevices mod 2 ^ 32 = ndevices"
    using assms(2,3) by simp
  with assms(1) show ?thesis
    by (auto simp: sleepy_open_def Let_def ENODEV_def split: if_splits)
qed

lemma length_sleepy_read [simp]: "length (snd (sleepy_read devs filp k)) = length devs"
  by (simp add: sleepy_read_def Let_def)

lemma sleepy_read_other:
  "j \<noteq> private_data filp \<Longrightarrow> snd (sleepy_read devs filp k) ! j = devs ! j"
  by (simp add: sleepy_read_def Let_def)

lemma sleepy_read_self:
  "private_data filp < length devs \<Longrightarrow>
   flag (snd (sleepy_read devs filp k) ! private_data filp) =
     flag (devs ! private_data filp) + (if k then 0 else 1)"
  by (simp add: sleepy_read_def Let_def)

lemma length_read_calls [simp]: "length (read_calls devs filp ks) = length devs"
  by (induction ks arbitrary: devs) simp_all

lemma length_completed_reads [simp]: "length (completed_reads devs ms) = length devs"
  by (induction ms arbitrary: devs) simp_all

lemma completed_reads_append:
  "completed_reads devs (ms @ ns) = completed_reads (completed_reads devs ms) ns"
  by (induction ms arbitrary: devs) simp_all

text \<open>
  C1 (as amended). After any sequence of \<open>sleepy_read\<close> calls on an open device, the
  flag equals, at the width of the field, its value before the sequence plus the number
  of calls that acquired the mutex. A call whose \<open>mutex_lock_killable\<close> is interrupted
  does not count.
\<close>

theorem read_calls_flag:
  assumes "private_data filp < length devs"
  shows "flag (read_calls devs filp ks ! private_data filp) =
           flag (devs ! private_data filp) + of_nat (length (filter (\<lambda>killed. \<not> killed) ks))"
  using assms
proof (induction ks arbitrary: devs)
  case Nil
  then show ?case by simp
next
  case (Cons k ks)
  have "private_data filp < length (snd (sleepy_read devs filp k))"
    using Cons.prems by simp
  from Cons.IH [OF this] show ?case
    using Cons.prems by (simp add: sleepy_read_self)
qed

theorem read_calls_flag_witness:
  "flag (read_calls three_devs filp1 [False, True, False] ! 1) = 7"
  using read_calls_flag [of filp1 three_devs "[False, True, False]"]
  by (simp add: filp1_def three_devs_def)

text \<open>
  Three calls, the second interrupted while it waits for the mutex: the flag goes from 5
  to 7, not to 8.
\<close>

theorem read_calls_killed_counterexample:
  "flag (read_calls three_devs filp1 [False, True, False] ! 1)
     \<noteq> flag (three_devs ! 1) + of_nat (length [False, True, False])"
  by (simp add: sleepy_read_def filp1_def three_devs_def)

text \<open>
  C4 (as amended). \<open>sleepy_read\<close> returns 0 when it acquires the mutex. When
  \<open>mutex_lock_killable\<close> is interrupted it returns \<open>-EINTR\<close> and leaves every device
  as it was. It has no other result.
\<close>

theorem sleepy_read_result:
  "fst (sleepy_read devs filp killed) = (if killed then - EINTR else 0) \<and>
   (killed \<longrightarrow> snd (sleepy_read devs filp killed) = devs)"
  by (simp add: sleepy_read_def Let_def)

theorem sleepy_read_result_witness:
  "fst (sleepy_read three_devs filp1 True) = - 4 \<and> snd (sleepy_read three_devs filp1 True) = three_devs"
  using sleepy_read_result [of three_devs filp1 True]
  by (simp add: EINTR_def)

theorem sleepy_read_error_counterexample:
  "fst (sleepy_read three_devs filp1 True) = - EINTR \<and> fst (sleepy_read three_devs filp1 True) < 0"
  by (simp add: sleepy_read_def EINTR_def)

text \<open>
  C8. A \<open>sleepy_read\<close> on device \<open>i\<close> leaves every other device of the array as it
  was, and the array keeps its length. The flag of device \<open>i\<close> itself goes up by one
  when the call acquires the mutex, and stays when the call is interrupted.
\<close>

theorem sleepy_read_frame:
  assumes "private_data filp < length devs"
  shows "(\<forall>j < length devs. j \<noteq> private_data filp \<longrightarrow>
            snd (sleepy_read devs filp killed) ! j = devs ! j) \<and>
         flag (snd (sleepy_read devs filp killed) ! private_data filp) =
           flag (devs ! private_data filp) + (if killed then 0 else 1) \<and>
         length (snd (sleepy_read devs filp killed)) = length devs"
  using assms by (simp add: sleepy_read_other sleepy_read_self)

theorem sleepy_read_frame_witness:
  "flag (snd (sleepy_read three_devs filp1 False) ! 0) = 4 \<and>
   flag (snd (sleepy_read three_devs filp1 False) ! 1) = 6 \<and>
   flag (snd (sleepy_read three_devs filp1 False) ! 2) = 6"
proof -
  have h: "private_data filp1 < length three_devs"
    by (simp add: three_devs_def filp1_def)
  show ?thesis
    using sleepy_read_frame [OF h, of False] by (simp add: three_devs_def filp1_def)
qed

section \<open>Properties of write\<close>

text \<open>
  C9. A \<open>sleepy_write\<close> with a count other than 4 returns \<open>-EINVAL\<close>, whatever the
  devices, the buffer and the environment are; the thread is not put to sleep and the
  devices are as before.
\<close>

theorem sleepy_write_wrong_size:
  "count \<noteq> 4 \<Longrightarrow> sleepy_write HZ devs filp count buf env = Some (- EINVAL, 0, devs)"
  by (simp add: sleepy_write_def)

theorem sleepy_write_wrong_size_witness:
  "sleepy_write 250 three_devs filp1 3 (Some 10) env_woken_late = Some (- 22, 0, three_devs)"
  using sleepy_write_wrong_size [of 3 250 three_devs filp1 "Some 10" env_woken_late]
  by (simp add: EINVAL_def)

text \<open>
  C6. A \<open>sleepy_write\<close> of zero seconds that acquires the mutex and finds the flag at
  its first test as it stored it returns 0 at once: no tick of the wait loop is used and
  the thread is never put to sleep.
\<close>

theorem sleepy_write_zero_duration:
  assumes "\<not> lock_killed env"
    and "flag (completed_reads devs (raced env) ! private_data filp) = flag (devs ! private_data filp)"
  shows "sleepy_write HZ devs filp 4 (Some 0) env = Some (0, 0, completed_reads devs (raced env))"
  using assms
  by (simp add: sleepy_write_def wait_event_interruptible_timeout_def wait_cond_timeout_def Let_def)

theorem sleepy_write_zero_duration_witness:
  "sleepy_write 250 three_devs filp1 4 (Some 0) env_raced
   = Some (0, 0, [\<lparr>data = None, flag = 5\<rparr>, \<lparr>data = None, flag = 5\<rparr>, \<lparr>data = None, flag = 6\<rparr>])"
  using sleepy_write_zero_duration [of env_raced three_devs filp1 250]
  by (simp add: three_devs_def filp1_def env_raced_def sleepy_read_def)

text \<open>
  The wait changes the devices only through the \<open>sleepy_read\<close> calls of the other
  threads that the environment delivers.
\<close>

lemma wait_loop_frame:
  "wait_loop devs dev f ret b ts = Some (r, n, devs') \<Longrightarrow>
   \<exists>ms. prefix ms (concat (map arrivals ts)) \<and> devs' = completed_reads devs ms"
proof (induction ts arbitrary: devs ret b)
  case Nil
  then show ?case by simp
next
  case (Cons t ts)
  let ?d = "completed_reads devs (arrivals t)"
  show ?case
  proof (cases "devs' = ?d")
    case True
    then show ?thesis by (intro exI [of _ "arrivals t"]) simp
  next
    case False
    with Cons.prems obtain ret2 b2 where "wait_loop ?d dev f ret2 b2 ts = Some (r, n, devs')"
      by (auto simp: Let_def split: prod.splits if_splits)
    from Cons.IH [OF this] obtain ms where
      "prefix ms (concat (map arrivals ts))" "devs' = completed_reads ?d ms" by blast
    then show ?thesis
      by (intro exI [of _ "arrivals t @ ms"]) (simp add: completed_reads_append)
  qed
qed

lemma wait_event_frame:
  assumes "wait_event_interruptible_timeout devs dev f timeout rc ts = Some (r, n, devs')"
  shows "\<exists>ms. prefix ms (rc @ concat (map arrivals ts)) \<and> devs' = completed_reads devs ms"
proof (cases "devs' = completed_reads devs rc")
  case True
  then show ?thesis by (intro exI [of _ rc]) simp
next
  case False
  with assms have "wait_loop (completed_reads devs rc) dev f timeout 0 ts = Some (r, n, devs')"
    by (auto simp: wait_event_interruptible_timeout_def Let_def split: prod.splits if_splits)
  from wait_loop_frame [OF this] obtain ms where
    "prefix ms (concat (map arrivals ts))" "devs' = completed_reads (completed_reads devs rc) ms"
    by blast
  then show ?thesis
    by (intro exI [of _ "rc @ ms"]) (simp add: completed_reads_append)
qed

lemma sleepy_write_frame_aux:
  assumes "sleepy_write HZ devs filp count buf env = Some (rv, n, devs')"
  shows "\<exists>ms. prefix ms (raced env @ concat (map arrivals (wakeups env))) \<and>
              devs' = completed_reads devs ms"
proof (cases "devs' = devs")
  case True
  then show ?thesis by (intro exI [of _ "[]"]) simp
next
  case False
  with assms obtain f t r where
    "wait_event_interruptible_timeout devs (private_data filp) f t (raced env) (wakeups env)
       = Some (r, n, devs')"
    by (auto simp: sleepy_write_def Let_def split: option.splits if_splits)
  from wait_event_frame [OF this] show ?thesis .
qed

text \<open>
  C10. Whatever a \<open>sleepy_write\<close> returns, the devices after the call are the devices
  before it with only \<open>sleepy_read\<close> calls of other threads applied: some initial part
  of the calls the environment delivers during the wait. In particular, when no other
  thread completes a \<open>sleepy_read\<close> during the call, every device, and so every flag,
  is as it was.
\<close>

theorem sleepy_write_frame:
  assumes "sleepy_write HZ devs filp count buf env = Some (rv, n, devs')"
  shows "(\<exists>ms. prefix ms (raced env @ concat (map arrivals (wakeups env))) \<and>
               devs' = completed_reads devs ms) \<and>
         (raced env = [] \<and> (\<forall>t \<in> set (wakeups env). arrivals t = []) \<longrightarrow> devs' = devs)"
proof -
  from sleepy_write_frame_aux [OF assms] obtain ms where
    ms: "prefix ms (raced env @ concat (map arrivals (wakeups env)))"
        "devs' = completed_reads devs ms"
    by blast
  have "devs' = devs" if "raced env = []" "\<forall>t \<in> set (wakeups env). arrivals t = []"
  proof -
    from that have "raced env @ concat (map arrivals (wakeups env)) = []" by simp
    with ms(1) have "ms = []" by simp
    with ms(2) show ?thesis by simp
  qed
  with ms show ?thesis by blast
qed

theorem sleepy_write_frame_witness:
  "sleepy_write 250 one_dev filp0 4 (Some 10) env_woken_late = Some (0, 1, [\<lparr>data = None, flag = 1\<rparr>]) \<and>
   (\<exists>ms. prefix ms [0] \<and> [\<lparr>data = None, flag = 1\<rparr>] = completed_reads one_dev ms) \<and>
   (\<exists>devs'. sleepy_write 250 one_dev filp0 4 (Some 10) env_timed_out = Some (0, 1, devs') \<and>
            devs' = one_dev)"
proof -
  have a: "sleepy_write 250 one_dev filp0 4 (Some 10) env_woken_late
             = Some (0, 1, [\<lparr>data = None, flag = 1\<rparr>])"
    by (simp add: sleepy_write_def wait_event_interruptible_timeout_def wait_cond_timeout_def
        schedule_timeout_def prepare_to_wait_event_def sleepy_read_def MAX_SCHEDULE_TIMEOUT_def
        one_dev_def filp0_def env_woken_late_def Let_def)
  have "sleepy_write 250 one_dev filp0 4 (Some 10) env_timed_out \<noteq> None"
    by (simp add: sleepy_write_def wait_event_interruptible_timeout_def wait_cond_timeout_def
        schedule_timeout_def prepare_to_wait_event_def sleepy_read_def MAX_SCHEDULE_TIMEOUT_def
        one_dev_def filp0_def env_timed_out_def Let_def)
  then obtain rv n devs' where
    b: "sleepy_write 250 one_dev filp0 4 (Some 10) env_timed_out = Some (rv, n, devs')"
    by (cases "sleepy_write 250 one_dev filp0 4 (Some 10) env_timed_out") auto
  have q: "raced env_timed_out = [] \<and> (\<forall>t \<in> set (wakeups env_timed_out). arrivals t = [])"
    by (simp add: env_timed_out_def)
  from sleepy_write_frame [OF b] q have "devs' = one_dev"
    by blast
  moreover from b have "rv = 0 \<and> n = 1"
    by (simp add: sleepy_write_def wait_event_interruptible_timeout_def wait_cond_timeout_def
        schedule_timeout_def prepare_to_wait_event_def sleepy_read_def MAX_SCHEDULE_TIMEOUT_def
        one_dev_def filp0_def env_timed_out_def Let_def)
  moreover from sleepy_write_frame [OF a]
  have "\<exists>ms. prefix ms [0] \<and> [\<lparr>data = None, flag = 1\<rparr>] = completed_reads one_dev ms"
    by (simp add: env_woken_late_def)
  ultimately show ?thesis
    using a b by simp
qed

section \<open>The result of the wait\<close>

lemma sint_word_of_int_in_range:
  "- (2 ^ 31) \<le> k \<Longrightarrow> k < 2 ^ 31 \<Longrightarrow> sint (word_of_int k :: 32 word) = k"
  by (simp add: sint_sbintrunc' signed_take_bit_int_eq_self)

lemma sleep_jiffies_in_range:
  fixes d :: "32 word"
  assumes "- (2 ^ 31) \<le> sint d * HZ" "sint d * HZ < 2 ^ 31"
  shows "sint (scast (d * word_of_int HZ) :: 64 word) = sint d * HZ"
proof -
  have e: "d * word_of_int HZ = (word_of_int (sint d * HZ) :: 32 word)"
    by simp
  have "sint (scast (d * word_of_int HZ) :: 64 word) = sint (d * word_of_int HZ)"
    by (rule sint_up_scast) (simp add: is_up)
  also have "\<dots> = sint (word_of_int (sint d * HZ) :: 32 word)"
    by (simp only: e)
  also have "\<dots> = sint d * HZ"
    using assms by (rule sint_word_of_int_in_range)
  finally show ?thesis .
qed

lemma sdiv_pos: "0 \<le> (a::int) \<Longrightarrow> 0 < b \<Longrightarrow> a sdiv b = a div b"
  by (simp add: signed_divide_int_def sgn_if)

lemma sdiv_mult_self: "0 < (b::int) \<Longrightarrow> (a * b) sdiv b = a"
  by (simp add: signed_divide_int_def sgn_if abs_mult zero_less_mult_iff mult_less_0_iff)

lemma sleepy_write_raced_in_range:
  fixes d :: "32 word"
  assumes "1 < HZ" "- (2 ^ 31) \<le> sint d * HZ" "sint d * HZ < 2 ^ 31"
    and "\<not> lock_killed env"
    and "flag (completed_reads devs (raced env) ! private_data filp) \<noteq> flag (devs ! private_data filp)"
  shows "sleepy_write HZ devs filp 4 (Some d) env = Some (sint d, 0, completed_reads devs (raced env))"
proof (cases "sint d = 0")
  case True
  with assms show ?thesis
    by (simp add: sleepy_write_def wait_event_interruptible_timeout_def wait_cond_timeout_def
        Let_def sleep_jiffies_in_range sdiv_pos)
next
  case False
  with assms show ?thesis
    by (simp add: sleepy_write_def wait_event_interruptible_timeout_def wait_cond_timeout_def
        Let_def sleep_jiffies_in_range sdiv_mult_self)
qed

text \<open>
  What the macro returns for a timeout that is not negative: \<open>-ERESTARTSYS\<close> or 0 with
  the flag as stored at the last test, or a positive number of jiffies, at most the
  timeout (1 for a timeout of 0), with the flag changed.
\<close>

lemma wait_loop_result:
  assumes "wait_loop devs dev f ret b ts = Some (r, n, devs')" "0 \<le> ret" "ret < MAX_SCHEDULE_TIMEOUT"
  shows "(r = - ERESTARTSYS \<and> flag (devs' ! dev) = f) \<or>
         (r = 0 \<and> flag (devs' ! dev) = f) \<or>
         (0 < r \<and> r \<le> max 1 ret \<and> flag (devs' ! dev) \<noteq> f)"
  using assms
proof (induction ts arbitrary: devs ret b)
  case Nil
  then show ?case by simp
next
  case (Cons t ts)
  let ?d = "completed_reads devs (arrivals t)"
  show ?case
  proof (cases "f \<noteq> flag (?d ! dev)")
    case True
    with Cons.prems show ?thesis
      by (auto simp: wait_cond_timeout_def Let_def split: if_splits)
  next
    case cond: False
    show ?thesis
    proof (cases "ret = 0")
      case True
      with cond Cons.prems show ?thesis
        by (auto simp: wait_cond_timeout_def Let_def split: if_splits)
    next
      case ret: False
      show ?thesis
      proof (cases "signal_pending t")
        case True
        with cond ret Cons.prems show ?thesis
          by (auto simp: wait_cond_timeout_def prepare_to_wait_event_def ERESTARTSYS_def Let_def)
      next
        case False
        let ?r2 = "if ret - int (elapsed t) < 0 then 0 else ret - int (elapsed t)"
        from False cond ret Cons.prems
        have w: "wait_loop ?d dev f ?r2 (Suc b) ts = Some (r, n, devs')"
          by (auto simp: wait_cond_timeout_def prepare_to_wait_event_def schedule_timeout_def
              Let_def split: if_splits)
        have "0 \<le> ?r2" "?r2 < MAX_SCHEDULE_TIMEOUT" "?r2 \<le> ret"
          using Cons.prems by auto
        from Cons.IH [OF w this(1,2)] this(3) show ?thesis by auto
      qed
    qed
  qed
qed

lemma wait_event_result:
  assumes "wait_event_interruptible_timeout devs dev f timeout rc ts = Some (r, n, devs')"
    and "0 \<le> timeout" "timeout < MAX_SCHEDULE_TIMEOUT"
  shows "(r = - ERESTARTSYS \<and> flag (devs' ! dev) = f) \<or>
         (r = 0 \<and> flag (devs' ! dev) = f) \<or>
         (0 < r \<and> r \<le> max 1 timeout \<and> flag (devs' ! dev) \<noteq> f)"
proof (cases "wait_loop (completed_reads devs rc) dev f timeout 0 ts = Some (r, n, devs')")
  case True
  from wait_loop_result [OF True assms(2,3)] show ?thesis .
next
  case False
  with assms show ?thesis
    by (auto simp: wait_event_interruptible_timeout_def wait_cond_timeout_def Let_def
        split: if_splits)
qed

lemma wait_loop_returns:
  assumes "0 \<le> ret" "ret < MAX_SCHEDULE_TIMEOUT" "ret \<le> int (sum_list (map elapsed ts))"
  shows "wait_loop devs dev f ret b (ts @ [t]) \<noteq> None"
  using assms
proof (induction ts arbitrary: devs ret b)
  case Nil
  then show ?case
    by (simp add: wait_cond_timeout_def Let_def)
next
  case (Cons t1 ts)
  let ?d = "completed_reads devs (arrivals t1)"
  let ?r2 = "if ret - int (elapsed t1) < 0 then 0 else ret - int (elapsed t1)"
  have r2: "0 \<le> ?r2" "?r2 < MAX_SCHEDULE_TIMEOUT" "?r2 \<le> int (sum_list (map elapsed ts))"
    using Cons.prems by auto
  from Cons.IH [OF r2] have "wait_loop ?d dev f ?r2 (Suc b) (ts @ [t]) \<noteq> None" .
  with Cons.prems(1,2) show ?case
    by (auto simp: wait_cond_timeout_def schedule_timeout_def Let_def split: if_splits)
qed

lemma wait_event_returns:
  assumes "0 \<le> timeout" "timeout < MAX_SCHEDULE_TIMEOUT"
    and "timeout \<le> int (sum_list (map elapsed ts))"
  shows "wait_event_interruptible_timeout devs dev f timeout rc (ts @ [t]) \<noteq> None"
  using wait_loop_returns [OF assms, of "completed_reads devs rc" dev f 0 t]
  by (auto simp: wait_event_interruptible_timeout_def Let_def split: prod.splits)

text \<open>
  C5. A \<open>sleepy_write\<close> that finds the flag changed at its first test returns at once,
  and for a duration whose number of jiffies fits an \<open>int\<close> the result is the duration
  (lemma \<open>sleepy_write_raced_in_range\<close>). The product \<open>sleep_seconds * HZ\<close> is
  computed at \<open>int\<close> before it is widened: for 8589935 seconds at \<open>HZ = 250\<close> it wraps
  to \<open>- 2147483546\<close>, and the call returns \<open>- 8589934\<close> instead of 8589935.
\<close>

theorem sleepy_write_raced_overflow:
  "sleepy_write 250 one_dev filp0 4 (Some 8589935) env_raced
   = Some (- 8589934, 0, [\<lparr>data = None, flag = 1\<rparr>])"
  by (simp add: sleepy_write_def wait_event_interruptible_timeout_def wait_cond_timeout_def
      sleepy_read_def one_dev_def filp0_def env_raced_def Let_def)

lemma wait_loop_exact:
  assumes "wait_loop devs dev f ret b ts = Some (r, n, devs')" "0 \<le> ret" "ret < MAX_SCHEDULE_TIMEOUT"
  shows "\<exists>k. k < length ts \<and> n = b + k \<and>
           devs' = completed_reads devs (concat (map arrivals (take (Suc k) ts))) \<and>
           (\<forall>i < k. flag (completed_reads devs (concat (map arrivals (take (Suc i) ts))) ! dev) = f \<and>
                    int (sum_list (map elapsed (take i ts))) < ret \<and>
                    \<not> signal_pending (ts ! i)) \<and>
           ((flag (devs' ! dev) \<noteq> f \<and> r = max 1 (ret - int (sum_list (map elapsed (take k ts))))) \<or>
            (flag (devs' ! dev) = f \<and> ret \<le> int (sum_list (map elapsed (take k ts))) \<and> r = 0) \<or>
            (flag (devs' ! dev) = f \<and> int (sum_list (map elapsed (take k ts))) < ret \<and>
               signal_pending (ts ! k) \<and> r = - ERESTARTSYS))"
  using assms
proof (induction ts arbitrary: devs ret b)
  case Nil
  then show ?case by simp
next
  case (Cons t ts)
  let ?d = "completed_reads devs (arrivals t)"
  let ?P = "\<lambda>k. k < length (t # ts) \<and> n = b + k \<and>
           devs' = completed_reads devs (concat (map arrivals (take (Suc k) (t # ts)))) \<and>
           (\<forall>i < k. flag (completed_reads devs (concat (map arrivals (take (Suc i) (t # ts)))) ! dev) = f \<and>
                    int (sum_list (map elapsed (take i (t # ts)))) < ret \<and>
                    \<not> signal_pending ((t # ts) ! i)) \<and>
           ((flag (devs' ! dev) \<noteq> f \<and> r = max 1 (ret - int (sum_list (map elapsed (take k (t # ts)))))) \<or>
            (flag (devs' ! dev) = f \<and> ret \<le> int (sum_list (map elapsed (take k (t # ts)))) \<and> r = 0) \<or>
            (flag (devs' ! dev) = f \<and> int (sum_list (map elapsed (take k (t # ts)))) < ret \<and>
               signal_pending ((t # ts) ! k) \<and> r = - ERESTARTSYS))"
  show ?case
  proof (cases "f \<noteq> flag (?d ! dev) \<or> ret = 0 \<or> signal_pending t")
    case True
    with Cons.prems have "?P 0"
      by (auto simp: wait_cond_timeout_def prepare_to_wait_event_def ERESTARTSYS_def Let_def
          split: if_splits)
    then show ?thesis by blast
  next
    case False
    then have q: "flag (?d ! dev) = f" "ret \<noteq> 0" "\<not> signal_pending t" by auto
    let ?r2 = "if ret - int (elapsed t) < 0 then 0 else ret - int (elapsed t)"
    from q Cons.prems
    have w: "wait_loop ?d dev f ?r2 (Suc b) ts = Some (r, n, devs')"
      by (auto simp: wait_cond_timeout_def prepare_to_wait_event_def schedule_timeout_def
          Let_def split: if_splits)
    have r2: "0 \<le> ?r2" "?r2 < MAX_SCHEDULE_TIMEOUT"
      using Cons.prems by auto
    from Cons.IH [OF w r2] obtain k where k:
      "k < length ts" "n = Suc b + k"
      "devs' = completed_reads ?d (concat (map arrivals (take (Suc k) ts)))"
      "\<forall>i < k. flag (completed_reads ?d (concat (map arrivals (take (Suc i) ts))) ! dev) = f \<and>
                int (sum_list (map elapsed (take i ts))) < ?r2 \<and> \<not> signal_pending (ts ! i)"
      "(flag (devs' ! dev) \<noteq> f \<and> r = max 1 (?r2 - int (sum_list (map elapsed (take k ts))))) \<or>
       (flag (devs' ! dev) = f \<and> ?r2 \<le> int (sum_list (map elapsed (take k ts))) \<and> r = 0) \<or>
       (flag (devs' ! dev) = f \<and> int (sum_list (map elapsed (take k ts))) < ?r2 \<and>
          signal_pending (ts ! k) \<and> r = - ERESTARTSYS)"
      by blast
    have pos: "0 < ret" using q(2) Cons.prems(2) by simp
    have 1: "Suc k < length (t # ts)" "n = b + Suc k"
      using k(1,2) by simp_all
    have 2: "devs' = completed_reads devs (concat (map arrivals (take (Suc (Suc k)) (t # ts))))"
      using k(3) by (simp add: completed_reads_append)
    have 3: "flag (completed_reads devs (concat (map arrivals (take (Suc i) (t # ts)))) ! dev) = f \<and>
             int (sum_list (map elapsed (take i (t # ts)))) < ret \<and>
             \<not> signal_pending ((t # ts) ! i)" if "i < Suc k" for i
    proof (cases i)
      case 0
      with q pos show ?thesis by simp
    next
      case (Suc j)
      with that have "j < k" by simp
      with k(4) have
        "flag (completed_reads ?d (concat (map arrivals (take (Suc j) ts))) ! dev) = f"
        "int (sum_list (map elapsed (take j ts))) < ?r2" "\<not> signal_pending (ts ! j)"
        by blast+
      with Suc show ?thesis
        by (auto simp: completed_reads_append split: if_splits)
    qed
    have nn: "0 \<le> int (sum_list (map elapsed (take k ts)))" by simp
    have 4: "(flag (devs' ! dev) \<noteq> f \<and>
                r = max 1 (ret - int (sum_list (map elapsed (take (Suc k) (t # ts)))))) \<or>
             (flag (devs' ! dev) = f \<and> ret \<le> int (sum_list (map elapsed (take (Suc k) (t # ts)))) \<and> r = 0) \<or>
             (flag (devs' ! dev) = f \<and> int (sum_list (map elapsed (take (Suc k) (t # ts)))) < ret \<and>
                signal_pending ((t # ts) ! Suc k) \<and> r = - ERESTARTSYS)"
      using k(5) nn by (auto split: if_splits)
    from 1 2 3 4 have "?P (Suc k)" by blast
    then show ?thesis by blast
  qed
qed

lemma wait_event_exact:
  assumes w: "wait_event_interruptible_timeout devs dev f T (raced env) (wakeups env) = Some (r, n, devs')"
    and T: "0 \<le> T" "T < MAX_SCHEDULE_TIMEOUT"
  shows "(r = - ERESTARTSYS \<or> r = 0 \<or> 0 < r) \<and>
         (0 < r \<longrightarrow> flag (devs' ! dev) \<noteq> f \<and> r = max 1 (T - slept_jiffies env n)) \<and>
         (r = 0 \<longrightarrow> flag (devs' ! dev) = f \<and> T \<le> slept_jiffies env n) \<and>
         (r = - ERESTARTSYS \<longrightarrow> flag (devs' ! dev) = f \<and> slept_jiffies env n < T \<and>
            n < length (wakeups env) \<and> signal_pending (wakeups env ! n)) \<and>
         ((n = 0 \<and> devs' = seen devs env 0 \<and> (flag (devs' ! dev) \<noteq> f \<or> T = 0)) \<or>
          (n < length (wakeups env) \<and> devs' = seen devs env (Suc n) \<and>
           flag (seen devs env 0 ! dev) = f \<and> 0 < T \<and>
           (\<forall>i < n. flag (seen devs env (Suc i) ! dev) = f \<and> slept_jiffies env i < T \<and>
                     \<not> signal_pending (wakeups env ! i))))"
proof (cases "f \<noteq> flag (completed_reads devs (raced env) ! dev) \<or> T = 0")
  case True
  with w T(1) have "n = 0" "devs' = completed_reads devs (raced env)"
    "(f \<noteq> flag (completed_reads devs (raced env) ! dev) \<and> r = max 1 T) \<or>
     (f = flag (completed_reads devs (raced env) ! dev) \<and> T = 0 \<and> r = 0)"
    by (auto simp: wait_event_interruptible_timeout_def wait_cond_timeout_def Let_def
        split: if_splits)
  then show ?thesis
    by (auto simp: seen_def slept_jiffies_def ERESTARTSYS_def)
next
  case False
  then have q: "flag (completed_reads devs (raced env) ! dev) = f" "0 < T"
    using T(1) by auto
  let ?d = "completed_reads devs (raced env)"
  let ?ts = "wakeups env"
  from w q have "wait_loop ?d dev f T 0 ?ts = Some (r, n, devs')"
    by (auto simp: wait_event_interruptible_timeout_def wait_cond_timeout_def Let_def
        split: if_splits)
  from wait_loop_exact [OF this T] obtain k where k:
    "k < length ?ts" "n = 0 + k"
    "devs' = completed_reads ?d (concat (map arrivals (take (Suc k) ?ts)))"
    "\<forall>i < k. flag (completed_reads ?d (concat (map arrivals (take (Suc i) ?ts))) ! dev) = f \<and>
              int (sum_list (map elapsed (take i ?ts))) < T \<and> \<not> signal_pending (?ts ! i)"
    "(flag (devs' ! dev) \<noteq> f \<and> r = max 1 (T - int (sum_list (map elapsed (take k ?ts))))) \<or>
     (flag (devs' ! dev) = f \<and> T \<le> int (sum_list (map elapsed (take k ?ts))) \<and> r = 0) \<or>
     (flag (devs' ! dev) = f \<and> int (sum_list (map elapsed (take k ?ts))) < T \<and>
        signal_pending (?ts ! k) \<and> r = - ERESTARTSYS)"
    by blast
  have s: "completed_reads ?d (concat (map arrivals (take i ?ts))) = seen devs env i" for i
    by (simp add: seen_def completed_reads_append)
  have s0: "?d = seen devs env 0"
    by (simp add: seen_def)
  from k(2) have nk: "k = n" by simp
  have B: "n < length ?ts \<and> devs' = seen devs env (Suc n) \<and>
           flag (seen devs env 0 ! dev) = f \<and> 0 < T \<and>
           (\<forall>i < n. flag (seen devs env (Suc i) ! dev) = f \<and> slept_jiffies env i < T \<and>
                     \<not> signal_pending (?ts ! i))"
    using k(1,3,4) q unfolding nk s s0 [symmetric] slept_jiffies_def by simp
  have C: "(flag (devs' ! dev) \<noteq> f \<and> r = max 1 (T - slept_jiffies env n)) \<or>
     (flag (devs' ! dev) = f \<and> T \<le> slept_jiffies env n \<and> r = 0) \<or>
     (flag (devs' ! dev) = f \<and> slept_jiffies env n < T \<and>
        signal_pending (?ts ! n) \<and> r = - ERESTARTSYS)"
    using k(5) unfolding nk slept_jiffies_def .
  from B C show ?thesis
    by (auto simp: ERESTARTSYS_def)
qed

text \<open>
  C2 (as amended). Take a \<open>sleepy_write\<close> with a 4-byte duration \<open>d\<close> that is not
  negative and whose number of jiffies \<open>d * HZ\<close> fits an \<open>int\<close>, that acquires the
  mutex, and whose wait is given ticks in which at least the whole duration elapses, and
  one more. Then the wait and the call return, after \<open>n\<close> sleeps. The wait returns \<open>r\<close>:
  \<^item> a positive \<open>r\<close> exactly when the flag is seen changed; then \<open>r\<close> is the time that
    remains, \<open>d * HZ\<close> minus the jiffies slept (1 if nothing remains), and the call
    returns \<open>r div HZ\<close>, the whole seconds that remain, between 0 and \<open>d\<close>;
  \<^item> 0 exactly when the flag is seen unchanged and the jiffies slept have reached
    \<open>d * HZ\<close>; then the call returns 0;
  \<^item> \<open>-ERESTARTSYS\<close> exactly when the flag is seen unchanged, time remains and a signal
    is pending for the thread in that round.
  The wait ends at the first test at which one of the three holds: either at the macro's
  own test, without a sleep, or in round \<open>n\<close> of the loop, and then in every earlier
  round the flag was unchanged, time remained and no signal was pending.
\<close>

theorem sleepy_write_outcomes:
  fixes d :: "32 word"
  assumes "1 < HZ" "0 \<le> sint d" "sint d * HZ < 2 ^ 31" "\<not> lock_killed env"
    and "wakeups env = ts @ [t]" "sint d * HZ \<le> int (sum_list (map elapsed ts))"
  shows "\<exists>r rv n devs'.
           wait_event_interruptible_timeout devs (private_data filp) (flag (devs ! private_data filp))
             (sint d * HZ) (raced env) (wakeups env) = Some (r, n, devs') \<and>
           sleepy_write HZ devs filp 4 (Some d) env = Some (rv, n, devs') \<and>
           (r = - ERESTARTSYS \<or> r = 0 \<or> 0 < r) \<and>
           (0 < r \<longrightarrow> flag (devs' ! private_data filp) \<noteq> flag (devs ! private_data filp) \<and>
                        r = max 1 (sint d * HZ - slept_jiffies env n) \<and> r \<le> max 1 (sint d * HZ) \<and>
                        rv = r div HZ \<and> 0 \<le> rv \<and> rv \<le> sint d) \<and>
           (r = 0 \<longrightarrow> flag (devs' ! private_data filp) = flag (devs ! private_data filp) \<and>
                        sint d * HZ \<le> slept_jiffies env n \<and> rv = 0) \<and>
           (r = - ERESTARTSYS \<longrightarrow> flag (devs' ! private_data filp) = flag (devs ! private_data filp) \<and>
                        slept_jiffies env n < sint d * HZ \<and>
                        n < length (wakeups env) \<and> signal_pending (wakeups env ! n)) \<and>
           ((n = 0 \<and> devs' = seen devs env 0 \<and>
               (flag (devs' ! private_data filp) \<noteq> flag (devs ! private_data filp) \<or> sint d * HZ = 0)) \<or>
            (n < length (wakeups env) \<and> devs' = seen devs env (Suc n) \<and>
               flag (seen devs env 0 ! private_data filp) = flag (devs ! private_data filp) \<and> 0 < sint d * HZ \<and>
               (\<forall>i < n. flag (seen devs env (Suc i) ! private_data filp) = flag (devs ! private_data filp) \<and>
                         slept_jiffies env i < sint d * HZ \<and>
                         \<not> signal_pending (wakeups env ! i))))"
proof -
  let ?T = "sint d * HZ"
  let ?dev = "private_data filp"
  let ?f = "flag (devs ! ?dev)"
  have T0: "0 \<le> ?T"
    using assms(1,2) by (intro mult_nonneg_nonneg) simp_all
  then have T: "0 \<le> ?T" "?T < MAX_SCHEDULE_TIMEOUT" "- (2 ^ 31) \<le> ?T"
    using assms(3) by (simp_all add: MAX_SCHEDULE_TIMEOUT_def)
  from wait_event_returns [OF T(1,2) assms(6), of devs ?dev ?f "raced env" t] assms(5)
  have "wait_event_interruptible_timeout devs ?dev ?f ?T (raced env) (wakeups env) \<noteq> None"
    by simp
  then obtain r n devs' where
    w: "wait_event_interruptible_timeout devs ?dev ?f ?T (raced env) (wakeups env) = Some (r, n, devs')"
    by (cases "wait_event_interruptible_timeout devs ?dev ?f ?T (raced env) (wakeups env)") auto
  define rv where "rv = (if r \<noteq> 0 then r sdiv HZ else r)"
  have sw: "sleepy_write HZ devs filp 4 (Some d) env = Some (rv, n, devs')"
    using w assms(4) T(3) assms(3)
    by (simp add: sleepy_write_def Let_def sleep_jiffies_in_range rv_def)
  note ex = wait_event_exact [OF w T(1,2)]
  have le: "r \<le> max 1 ?T" if "0 < r"
  proof -
    from ex that have "r = max 1 (?T - slept_jiffies env n)" by blast
    moreover have "0 \<le> slept_jiffies env n" by (simp add: slept_jiffies_def)
    ultimately show ?thesis by simp
  qed
  have pos: "rv = r div HZ \<and> 0 \<le> rv \<and> rv \<le> sint d" if "0 < r"
  proof -
    have 1: "rv = r div HZ"
      using that assms(1) by (simp add: rv_def sdiv_pos)
    have 2: "0 \<le> r div HZ"
      using that assms(1) by (simp add: pos_imp_zdiv_nonneg_iff)
    have 3: "r div HZ \<le> sint d"
    proof (cases "?T = 0")
      case True
      with le [OF that] that have "r = 1" by simp
      with assms(1,2) show ?thesis by simp
    next
      case False
      with T(1) le [OF that] have "r \<le> ?T" by simp
      then have "r div HZ \<le> ?T div HZ"
        using assms(1) by (intro zdiv_mono1) simp_all
      moreover have "?T div HZ = sint d"
        using assms(1) by simp
      ultimately show ?thesis by simp
    qed
    from 1 2 3 show ?thesis by simp
  qed
  have zero: "rv = 0" if "r = 0"
    using that by (simp add: rv_def)
  from ex le pos zero have
    "(r = - ERESTARTSYS \<or> r = 0 \<or> 0 < r) \<and>
     (0 < r \<longrightarrow> flag (devs' ! ?dev) \<noteq> ?f \<and> r = max 1 (?T - slept_jiffies env n) \<and>
                  r \<le> max 1 ?T \<and> rv = r div HZ \<and> 0 \<le> rv \<and> rv \<le> sint d) \<and>
     (r = 0 \<longrightarrow> flag (devs' ! ?dev) = ?f \<and> ?T \<le> slept_jiffies env n \<and> rv = 0) \<and>
     (r = - ERESTARTSYS \<longrightarrow> flag (devs' ! ?dev) = ?f \<and> slept_jiffies env n < ?T \<and>
        n < length (wakeups env) \<and> signal_pending (wakeups env ! n)) \<and>
     ((n = 0 \<and> devs' = seen devs env 0 \<and> (flag (devs' ! ?dev) \<noteq> ?f \<or> ?T = 0)) \<or>
      (n < length (wakeups env) \<and> devs' = seen devs env (Suc n) \<and>
       flag (seen devs env 0 ! ?dev) = ?f \<and> 0 < ?T \<and>
       (\<forall>i < n. flag (seen devs env (Suc i) ! ?dev) = ?f \<and> slept_jiffies env i < ?T \<and>
                 \<not> signal_pending (wakeups env ! i))))"
    by blast
  with w sw show ?thesis by blast
qed

text \<open>
  The theorem at a waiter that is woken by a \<open>sleepy_read\<close> after 2400 of 2500
  jiffies, and at a waiter that sleeps through its 2500 jiffies.
\<close>

theorem sleepy_write_outcomes_witness:
  "(\<exists>r rv n devs'.
       wait_event_interruptible_timeout one_dev (private_data filp0) (flag (one_dev ! private_data filp0))
         (sint (10 :: 32 word) * 250) (raced env_woken_late) (wakeups env_woken_late) = Some (r, n, devs') \<and>
       sleepy_write 250 one_dev filp0 4 (Some (10 :: 32 word)) env_woken_late = Some (rv, n, devs') \<and>
       (r = - ERESTARTSYS \<or> r = 0 \<or> 0 < r) \<and>
       (0 < r \<longrightarrow> flag (devs' ! private_data filp0) \<noteq> flag (one_dev ! private_data filp0) \<and>
                    r = max 1 (sint (10 :: 32 word) * 250 - slept_jiffies env_woken_late n) \<and> r \<le> max 1 (sint (10 :: 32 word) * 250) \<and>
                    rv = r div 250 \<and> 0 \<le> rv \<and> rv \<le> sint (10 :: 32 word)) \<and>
       (r = 0 \<longrightarrow> flag (devs' ! private_data filp0) = flag (one_dev ! private_data filp0) \<and>
                    sint (10 :: 32 word) * 250 \<le> slept_jiffies env_woken_late n \<and> rv = 0) \<and>
       (r = - ERESTARTSYS \<longrightarrow> flag (devs' ! private_data filp0) = flag (one_dev ! private_data filp0) \<and>
                    slept_jiffies env_woken_late n < sint (10 :: 32 word) * 250 \<and>
                    n < length (wakeups env_woken_late) \<and> signal_pending (wakeups env_woken_late ! n)) \<and>
       ((n = 0 \<and> devs' = seen one_dev env_woken_late 0 \<and>
           (flag (devs' ! private_data filp0) \<noteq> flag (one_dev ! private_data filp0) \<or> sint (10 :: 32 word) * 250 = 0)) \<or>
        (n < length (wakeups env_woken_late) \<and> devs' = seen one_dev env_woken_late (Suc n) \<and>
           flag (seen one_dev env_woken_late 0 ! private_data filp0) = flag (one_dev ! private_data filp0) \<and> 0 < sint (10 :: 32 word) * 250 \<and>
           (\<forall>i < n. flag (seen one_dev env_woken_late (Suc i) ! private_data filp0) = flag (one_dev ! private_data filp0) \<and>
                     slept_jiffies env_woken_late i < sint (10 :: 32 word) * 250 \<and>
                     \<not> signal_pending (wakeups env_woken_late ! i))))) \<and>
   (\<exists>r rv n devs'.
       wait_event_interruptible_timeout one_dev (private_data filp0) (flag (one_dev ! private_data filp0))
         (sint (10 :: 32 word) * 250) (raced env_timed_out) (wakeups env_timed_out) = Some (r, n, devs') \<and>
       sleepy_write 250 one_dev filp0 4 (Some (10 :: 32 word)) env_timed_out = Some (rv, n, devs') \<and>
       (r = - ERESTARTSYS \<or> r = 0 \<or> 0 < r) \<and>
       (0 < r \<longrightarrow> flag (devs' ! private_data filp0) \<noteq> flag (one_dev ! private_data filp0) \<and>
                    r = max 1 (sint (10 :: 32 word) * 250 - slept_jiffies env_timed_out n) \<and> r \<le> max 1 (sint (10 :: 32 word) * 250) \<and>
                    rv = r div 250 \<and> 0 \<le> rv \<and> rv \<le> sint (10 :: 32 word)) \<and>
       (r = 0 \<longrightarrow> flag (devs' ! private_data filp0) = flag (one_dev ! private_data filp0) \<and>
                    sint (10 :: 32 word) * 250 \<le> slept_jiffies env_timed_out n \<and> rv = 0) \<and>
       (r = - ERESTARTSYS \<longrightarrow> flag (devs' ! private_data filp0) = flag (one_dev ! private_data filp0) \<and>
                    slept_jiffies env_timed_out n < sint (10 :: 32 word) * 250 \<and>
                    n < length (wakeups env_timed_out) \<and> signal_pending (wakeups env_timed_out ! n)) \<and>
       ((n = 0 \<and> devs' = seen one_dev env_timed_out 0 \<and>
           (flag (devs' ! private_data filp0) \<noteq> flag (one_dev ! private_data filp0) \<or> sint (10 :: 32 word) * 250 = 0)) \<or>
        (n < length (wakeups env_timed_out) \<and> devs' = seen one_dev env_timed_out (Suc n) \<and>
           flag (seen one_dev env_timed_out 0 ! private_data filp0) = flag (one_dev ! private_data filp0) \<and> 0 < sint (10 :: 32 word) * 250 \<and>
           (\<forall>i < n. flag (seen one_dev env_timed_out (Suc i) ! private_data filp0) = flag (one_dev ! private_data filp0) \<and>
                     slept_jiffies env_timed_out i < sint (10 :: 32 word) * 250 \<and>
                     \<not> signal_pending (wakeups env_timed_out ! i)))))"
proof (rule conjI)
  show "\<exists>r rv n devs'.
       wait_event_interruptible_timeout one_dev (private_data filp0) (flag (one_dev ! private_data filp0))
         (sint (10 :: 32 word) * 250) (raced env_woken_late) (wakeups env_woken_late) = Some (r, n, devs') \<and>
       sleepy_write 250 one_dev filp0 4 (Some (10 :: 32 word)) env_woken_late = Some (rv, n, devs') \<and>
       (r = - ERESTARTSYS \<or> r = 0 \<or> 0 < r) \<and>
       (0 < r \<longrightarrow> flag (devs' ! private_data filp0) \<noteq> flag (one_dev ! private_data filp0) \<and>
                    r = max 1 (sint (10 :: 32 word) * 250 - slept_jiffies env_woken_late n) \<and> r \<le> max 1 (sint (10 :: 32 word) * 250) \<and>
                    rv = r div 250 \<and> 0 \<le> rv \<and> rv \<le> sint (10 :: 32 word)) \<and>
       (r = 0 \<longrightarrow> flag (devs' ! private_data filp0) = flag (one_dev ! private_data filp0) \<and>
                    sint (10 :: 32 word) * 250 \<le> slept_jiffies env_woken_late n \<and> rv = 0) \<and>
       (r = - ERESTARTSYS \<longrightarrow> flag (devs' ! private_data filp0) = flag (one_dev ! private_data filp0) \<and>
                    slept_jiffies env_woken_late n < sint (10 :: 32 word) * 250 \<and>
                    n < length (wakeups env_woken_late) \<and> signal_pending (wakeups env_woken_late ! n)) \<and>
       ((n = 0 \<and> devs' = seen one_dev env_woken_late 0 \<and>
           (flag (devs' ! private_data filp0) \<noteq> flag (one_dev ! private_data filp0) \<or> sint (10 :: 32 word) * 250 = 0)) \<or>
        (n < length (wakeups env_woken_late) \<and> devs' = seen one_dev env_woken_late (Suc n) \<and>
           flag (seen one_dev env_woken_late 0 ! private_data filp0) = flag (one_dev ! private_data filp0) \<and> 0 < sint (10 :: 32 word) * 250 \<and>
           (\<forall>i < n. flag (seen one_dev env_woken_late (Suc i) ! private_data filp0) = flag (one_dev ! private_data filp0) \<and>
                     slept_jiffies env_woken_late i < sint (10 :: 32 word) * 250 \<and>
                     \<not> signal_pending (wakeups env_woken_late ! i))))"
    by (rule sleepy_write_outcomes
          [where ts = "[\<lparr>arrivals = [], signal_pending = False, elapsed = 2400\<rparr>,
                        \<lparr>arrivals = [0], signal_pending = False, elapsed = 100\<rparr>]"
             and t = "\<lparr>arrivals = [], signal_pending = False, elapsed = 0\<rparr>"])
       (simp_all add: env_woken_late_def)
next
  show "\<exists>r rv n devs'.
       wait_event_interruptible_timeout one_dev (private_data filp0) (flag (one_dev ! private_data filp0))
         (sint (10 :: 32 word) * 250) (raced env_timed_out) (wakeups env_timed_out) = Some (r, n, devs') \<and>
       sleepy_write 250 one_dev filp0 4 (Some (10 :: 32 word)) env_timed_out = Some (rv, n, devs') \<and>
       (r = - ERESTARTSYS \<or> r = 0 \<or> 0 < r) \<and>
       (0 < r \<longrightarrow> flag (devs' ! private_data filp0) \<noteq> flag (one_dev ! private_data filp0) \<and>
                    r = max 1 (sint (10 :: 32 word) * 250 - slept_jiffies env_timed_out n) \<and> r \<le> max 1 (sint (10 :: 32 word) * 250) \<and>
                    rv = r div 250 \<and> 0 \<le> rv \<and> rv \<le> sint (10 :: 32 word)) \<and>
       (r = 0 \<longrightarrow> flag (devs' ! private_data filp0) = flag (one_dev ! private_data filp0) \<and>
                    sint (10 :: 32 word) * 250 \<le> slept_jiffies env_timed_out n \<and> rv = 0) \<and>
       (r = - ERESTARTSYS \<longrightarrow> flag (devs' ! private_data filp0) = flag (one_dev ! private_data filp0) \<and>
                    slept_jiffies env_timed_out n < sint (10 :: 32 word) * 250 \<and>
                    n < length (wakeups env_timed_out) \<and> signal_pending (wakeups env_timed_out ! n)) \<and>
       ((n = 0 \<and> devs' = seen one_dev env_timed_out 0 \<and>
           (flag (devs' ! private_data filp0) \<noteq> flag (one_dev ! private_data filp0) \<or> sint (10 :: 32 word) * 250 = 0)) \<or>
        (n < length (wakeups env_timed_out) \<and> devs' = seen one_dev env_timed_out (Suc n) \<and>
           flag (seen one_dev env_timed_out 0 ! private_data filp0) = flag (one_dev ! private_data filp0) \<and> 0 < sint (10 :: 32 word) * 250 \<and>
           (\<forall>i < n. flag (seen one_dev env_timed_out (Suc i) ! private_data filp0) = flag (one_dev ! private_data filp0) \<and>
                     slept_jiffies env_timed_out i < sint (10 :: 32 word) * 250 \<and>
                     \<not> signal_pending (wakeups env_timed_out ! i))))"
    by (rule sleepy_write_outcomes
          [where ts = "[\<lparr>arrivals = [], signal_pending = False, elapsed = 2500\<rparr>]"
             and t = "\<lparr>arrivals = [], signal_pending = False, elapsed = 0\<rparr>"])
       (simp_all add: env_timed_out_def)
qed

text \<open>
  At \<open>HZ = 250\<close> and a duration of 10 seconds: a waiter woken by a \<open>sleepy_read\<close> with
  100 jiffies left and a waiter whose whole duration elapsed get the same result 0.
\<close>

theorem sleepy_write_outcomes_counterexample:
  "wait_event_interruptible_timeout one_dev 0 0 2500 (raced env_woken_late) (wakeups env_woken_late)
     = Some (100, 1, [\<lparr>data = None, flag = 1\<rparr>]) \<and>
   wait_event_interruptible_timeout one_dev 0 0 2500 (raced env_timed_out) (wakeups env_timed_out)
     = Some (0, 1, one_dev) \<and>
   sleepy_write 250 one_dev filp0 4 (Some 10) env_woken_late = Some (0, 1, [\<lparr>data = None, flag = 1\<rparr>]) \<and>
   sleepy_write 250 one_dev filp0 4 (Some 10) env_timed_out = Some (0, 1, one_dev)"
  by (simp add: sleepy_write_def wait_event_interruptible_timeout_def wait_cond_timeout_def
        schedule_timeout_def prepare_to_wait_event_def sleepy_read_def MAX_SCHEDULE_TIMEOUT_def
        one_dev_def filp0_def env_woken_late_def env_timed_out_def Let_def)




section \<open>Properties of initialisation\<close>

lemma destroy_loop_eq:
  assumes "sleepy_devices st \<noteq> None" "sleepy_class st \<noteq> 0"
  shows "destroy_loop st i n =
           Some (st\<lparr>live_nodes := live_nodes st - {i..<n},
                    live_cdevs := live_cdevs st - {i..<n},
                    destroyed := destroyed st @ [i..<n]\<rparr>)"
  using assms
proof (induction st i n rule: destroy_loop.induct)
  case (1 st i n)
  show ?case
  proof (cases "i < n")
    case False
    then show ?thesis by simp
  next
    case True
    let ?st = "st\<lparr>live_nodes := live_nodes st - {i},
                    live_cdevs := live_cdevs st - {i},
                    destroyed := destroyed st @ [i]\<rparr>"
    have d: "sleepy_destroy_device st i = Some ?st"
      using "1.prems" by (simp add: sleepy_destroy_device_def)
    have "destroy_loop ?st (Suc i) n =
            Some (?st\<lparr>live_nodes := live_nodes ?st - {Suc i..<n},
                       live_cdevs := live_cdevs ?st - {Suc i..<n},
                       destroyed := destroyed ?st @ [Suc i..<n]\<rparr>)"
      using "1.prems" by (intro "1.IH" [OF True d]) simp_all
    moreover have "live_nodes st - {i..<n} = live_nodes st - {i} - {Suc i..<n}"
      "live_cdevs st - {i..<n} = live_cdevs st - {i} - {Suc i..<n}"
      "destroyed st @ [i..<n] = (destroyed st @ [i]) @ [Suc i..<n]"
      using True by (auto simp: upt_conv_Cons)
    ultimately show ?thesis
      using True d by (subst destroy_loop.simps) simp
  qed
qed

lemma construct_device_ok:
  assumes "sleepy_devices st = Some devs" "sleepy_class st \<noteq> 0"
    and "cdev_add_res env i = 0" "\<not> IS_ERR (device_create_res env i)"
  shows "sleepy_construct_device env st i =
           Some (0, st\<lparr>sleepy_devices := Some (devs[i := (devs ! i)\<lparr>data := None, flag := 0\<rparr>]),
                       live_cdevs := insert i (live_cdevs st),
                       live_nodes := insert i (live_nodes st)\<rparr>)"
  using assms by (simp add: sleepy_construct_device_def Let_def)

lemma construct_device_fails:
  assumes "sleepy_devices st = Some devs" "sleepy_class st \<noteq> 0"
    and "cdev_add_res env i \<noteq> 0 \<or> IS_ERR (device_create_res env i)"
    and "i \<notin> live_cdevs st"
  shows "sleepy_construct_device env st i =
           Some (if cdev_add_res env i \<noteq> 0 then cdev_add_res env i
                 else PTR_ERR (device_create_res env i),
                 st\<lparr>sleepy_devices := Some (devs[i := (devs ! i)\<lparr>data := None, flag := 0\<rparr>])\<rparr>)"
  using assms by (auto simp: sleepy_construct_device_def Let_def)

lemma construct_loop_fails_at:
  assumes "sleepy_devices st \<noteq> None" "sleepy_class st \<noteq> 0"
    and "i \<le> k" "k < n"
    and "\<forall>j. i \<le> j \<and> j < k \<longrightarrow> cdev_add_res env j = 0 \<and> \<not> IS_ERR (device_create_res env j)"
    and "cdev_add_res env k \<noteq> 0 \<or> IS_ERR (device_create_res env k)"
    and "k \<notin> live_cdevs st"
  shows "\<exists>devs'. construct_loop env st i n =
           Some (if cdev_add_res env k \<noteq> 0 then cdev_add_res env k
                 else PTR_ERR (device_create_res env k),
                 k,
                 st\<lparr>sleepy_devices := Some devs',
                    live_cdevs := live_cdevs st \<union> {i..<k},
                    live_nodes := live_nodes st \<union> {i..<k}\<rparr>)"
  using assms
proof (induction env st i n rule: construct_loop.induct)
  case (1 env st i n)
  from "1.prems"(1) obtain devs where devs: "sleepy_devices st = Some devs" by auto
  let ?e = "if cdev_add_res env k \<noteq> 0 then cdev_add_res env k else PTR_ERR (device_create_res env k)"
  have e: "?e \<noteq> 0"
    using "1.prems"(6) by (auto simp: IS_ERR_def PTR_ERR_def)
  show ?case
  proof (cases "i = k")
    case True
    have "sleepy_construct_device env st k =
            Some (?e, st\<lparr>sleepy_devices := Some (devs[k := (devs ! k)\<lparr>data := None, flag := 0\<rparr>])\<rparr>)"
      using devs "1.prems"(2,6,7) by (rule construct_device_fails)
    with True e "1.prems"(4) show ?thesis
      by (subst construct_loop.simps) (auto intro!: exI)
  next
    case False
    with "1.prems"(3) have ik: "i < k" by simp
    let ?st = "st\<lparr>sleepy_devices := Some (devs[i := (devs ! i)\<lparr>data := None, flag := 0\<rparr>]),
                    live_cdevs := insert i (live_cdevs st),
                    live_nodes := insert i (live_nodes st)\<rparr>"
    have c: "sleepy_construct_device env st i = Some (0, ?st)"
      using devs "1.prems"(2,5) ik by (intro construct_device_ok) auto
    have "\<exists>devs'. construct_loop env ?st (Suc i) n =
            Some (?e, k, ?st\<lparr>sleepy_devices := Some devs',
                              live_cdevs := live_cdevs ?st \<union> {Suc i..<k},
                              live_nodes := live_nodes ?st \<union> {Suc i..<k}\<rparr>)"
      using "1.prems" ik by (intro "1.IH" [OF _ c]) auto
    then obtain devs' where
      l: "construct_loop env ?st (Suc i) n =
            Some (?e, k, ?st\<lparr>sleepy_devices := Some devs',
                              live_cdevs := live_cdevs ?st \<union> {Suc i..<k},
                              live_nodes := live_nodes ?st \<union> {Suc i..<k}\<rparr>)" by blast
    have s: "insert i (live_cdevs st) \<union> {Suc i..<k} = live_cdevs st \<union> {i..<k}"
      "insert i (live_nodes st) \<union> {Suc i..<k} = live_nodes st \<union> {i..<k}"
      using ik by auto
    have "i < n" using ik "1.prems"(4) by simp
    with c l s show ?thesis
      by (subst construct_loop.simps) (auto intro!: exI [of _ devs'])
  qed
qed

text \<open>
  C7. Let the initialisation get as far as the construction of the devices, let the
  devices 0 to \<open>k - 1\<close> be constructed and let the construction of device \<open>k\<close> fail, in
  \<open>cdev_add\<close> or in \<open>device_create\<close>. Then \<open>sleepy_init_module\<close> returns that error,
  which is not 0, and when it returns \<open>sleepy_destroy_device\<close> has been called for
  exactly the minor numbers 0 to \<open>k - 1\<close> in order, no character device and no device
  node is left, the array is freed, the class is destroyed and the region of device
  numbers is released.
\<close>

theorem init_module_rollback:
  fixes env :: init_env
  assumes "0 < sleepy_ndevices" "\<not> alloc_chrdev_region_res env < 0"
    and "class_create_res env \<noteq> 0" "\<not> IS_ERR (class_create_res env)" "kzalloc_ok env"
    and "k < nat sleepy_ndevices"
    and "\<forall>j < k. cdev_add_res env j = 0 \<and> \<not> IS_ERR (device_create_res env j)"
    and "cdev_add_res env k \<noteq> 0 \<or> IS_ERR (device_create_res env k)"
  shows "\<exists>err st'. sleepy_init_module sleepy_ndevices env (unloaded :: ('w::len) word module_state)
                      = Some (err, st') \<and>
           err \<noteq> 0 \<and>
           err = (if cdev_add_res env k \<noteq> 0 then cdev_add_res env k
                  else PTR_ERR (device_create_res env k)) \<and>
           destroyed st' = [0..<k] \<and> live_cdevs st' = {} \<and> live_nodes st' = {} \<and>
           \<not> live_array st' \<and> \<not> live_class st' \<and> \<not> chrdev_region st'"
proof -
  let ?e = "if cdev_add_res env k \<noteq> 0 then cdev_add_res env k else PTR_ERR (device_create_res env k)"
  let ?n = "nat sleepy_ndevices"
  let ?st3 = "(unloaded :: 'w word module_state)
                \<lparr>sleepy_major := alloc_major env, chrdev_region := True,
                 sleepy_class := class_create_res env, live_class := True,
                 sleepy_devices := Some (replicate ?n \<lparr>data = None, flag = 0\<rparr>),
                 live_array := True\<rparr>"
  have e: "?e \<noteq> 0"
    using assms(8) by (auto simp: IS_ERR_def PTR_ERR_def)
  have "\<exists>devs'. construct_loop env ?st3 0 ?n =
          Some (?e, k, ?st3\<lparr>sleepy_devices := Some devs',
                            live_cdevs := live_cdevs ?st3 \<union> {0..<k},
                            live_nodes := live_nodes ?st3 \<union> {0..<k}\<rparr>)"
    using assms(3,6,7,8) by (intro construct_loop_fails_at) (auto simp: unloaded_def)
  then obtain devs' where
    l: "construct_loop env ?st3 0 ?n =
          Some (?e, k, ?st3\<lparr>sleepy_devices := Some devs',
                            live_cdevs := live_cdevs ?st3 \<union> {0..<k},
                            live_nodes := live_nodes ?st3 \<union> {0..<k}\<rparr>)" by blast
  let ?st4 = "?st3\<lparr>sleepy_devices := Some devs',
                    live_cdevs := live_cdevs ?st3 \<union> {0..<k},
                    live_nodes := live_nodes ?st3 \<union> {0..<k}\<rparr>"
  have d: "destroy_loop ?st4 0 k =
             Some (?st4\<lparr>live_nodes := live_nodes ?st4 - {0..<k},
                        live_cdevs := live_cdevs ?st4 - {0..<k},
                        destroyed := destroyed ?st4 @ [0..<k]\<rparr>)"
    using assms(3) by (intro destroy_loop_eq) simp_all
  have c: "sleepy_cleanup_module ?st4 k =
             Some (?st4\<lparr>live_nodes := {}, live_cdevs := {}, destroyed := [0..<k],
                        live_array := False, live_class := False, chrdev_region := False\<rparr>)"
    using assms(3,4) d
    by (simp add: sleepy_cleanup_module_def class_destroy_def unloaded_def)
  have "sleepy_init_module sleepy_ndevices env (unloaded :: 'w word module_state) =
          Some (?e, ?st4\<lparr>live_nodes := {}, live_cdevs := {}, destroyed := [0..<k],
                         live_array := False, live_class := False, chrdev_region := False\<rparr>)"
    using assms(1-5) l c e
    by (simp add: sleepy_init_module_def fail_def Let_def)
  with e show ?thesis by simp
qed

theorem init_module_rollback_witness:
  "\<exists>err st'. sleepy_init_module 3 env_fail2 (unloaded :: 32 word module_state) = Some (err, st') \<and>
     err = - 12 \<and> destroyed st' = [0, 1] \<and> live_cdevs st' = {} \<and> live_nodes st' = {} \<and>
     \<not> live_array st' \<and> \<not> live_class st' \<and> \<not> chrdev_region st'"
proof -
  have u: "[0..<2] = [0, Suc 0]"
    by (simp add: upt_rec)
  have h: "\<forall>j < 2. cdev_add_res env_fail2 j = 0 \<and> \<not> IS_ERR (device_create_res env_fail2 j)"
    by (simp add: env_fail2_def IS_ERR_def MAX_ERRNO_def)
  show ?thesis
    using init_module_rollback [of 3 env_fail2 2, where 'w = 32] h
    by (simp add: env_fail2_def IS_ERR_def PTR_ERR_def MAX_ERRNO_def u)
qed

end
